theory Spec2Isabelle
  imports Complex_Main "HOL-Library.Sublist"
begin

section \<open>Values and errors\<close>

text \<open>
  The values the tools receive and return are what \<^verbatim>\<open>json.loads\<close> produces and
  \<^verbatim>\<open>json.dumps\<close> accepts: \<^verbatim>\<open>None\<close>, booleans, integers, floats, strings, lists and
  dicts with string keys. A float is kept as its \<^verbatim>\<open>repr\<close> (no arithmetic is
  done on one in \<^verbatim>\<open>HW1/main.py\<close>); a dict is the list of its items in insertion order.
\<close>

datatype json =
    JNull
  | JBool bool
  | JInt int
  | JFloat string
  | JStr string
  | JArr "json list"
  | JObj "(string \<times> json) list"

text \<open>
  The exceptions that can leave the functions of \<^verbatim>\<open>HW1/main.py\<close>: a missing dict key, a
  call whose arguments do not fit the callee (or an unhashable dict key), text that
  \<^verbatim>\<open>json.loads\<close> rejects, a failure of the chat client, and the bare
  \<^verbatim>\<open>Exception(...)\<close> the loop raises itself, with its message.
  \<^verbatim>\<open>ZeroDivisionError\<close> is the one a division in \<^verbatim>\<open>HW3/mcp-server.py\<close> could raise.
\<close>

datatype py_error =
    KeyError string
  | TypeError
  | JSONDecodeError
  | EngineError
  | ZeroDivisionError
  | PyException string

section \<open>The mock tables and the two tools\<close>

definition MOCK_DB :: "(string \<times> json) list" where
  "MOCK_DB =
    [(''101'', JObj [(''name'', JStr ''Bluetooth Speaker''),
                     (''description'', JStr ''Portable speaker with deep bass''),
                     (''price'', JFloat ''59.99'')]),
     (''202'', JObj [(''name'', JStr ''Noise Cancelling Headphones''),
                     (''description'', JStr ''High fidelity wireless ANC headphones''),
                     (''price'', JFloat ''129.99'')]),
     (''303'', JObj [(''name'', JStr ''Smart Fitness Watch''),
                     (''description'', JStr ''Tracks heart rate, sleep, and activity''),
                     (''price'', JFloat ''89.99'')])]"

definition MOCK_DISCOUNTS :: "(string \<times> json) list" where
  "MOCK_DISCOUNTS = [(''101'', JInt 50), (''202'', JInt 20), (''303'', JInt 15)]"

text \<open>
  \<^verbatim>\<open>d.get(key)\<close> on a dict whose keys are all strings: a list or a dict as key is
  unhashable and raises \<^verbatim>\<open>TypeError\<close>; any other key that is not a string equals no
  key of the dict, so the lookup gives \<^verbatim>\<open>None\<close>.
\<close>

fun dict_get :: "(string \<times> json) list \<Rightarrow> json \<Rightarrow> py_error + json option" where
  "dict_get d (JStr s) = Inr (map_of d s)"
| "dict_get d (JArr xs) = Inl TypeError"
| "dict_get d (JObj kvs) = Inl TypeError"
| "dict_get d k = Inr None"

text \<open>Python's truth value of a tool value (\<^verbatim>\<open>product if product else ...\<close>).\<close>

fun truthy :: "json \<Rightarrow> bool" where
  "truthy JNull = False"
| "truthy (JBool b) = b"
| "truthy (JInt i) = (i \<noteq> 0)"
| "truthy (JFloat f) = (f \<notin> {''0.0'', ''-0.0''})"
| "truthy (JStr s) = (s \<noteq> [])"
| "truthy (JArr xs) = (xs \<noteq> [])"
| "truthy (JObj kvs) = (kvs \<noteq> [])"

definition get_product_info :: "json \<Rightarrow> py_error + json" where
  "get_product_info product_id =
     (case dict_get MOCK_DB product_id of
        Inl e \<Rightarrow> Inl e
      | Inr product \<Rightarrow>
          (case product of
             Some p \<Rightarrow> if truthy p then Inr p
                       else Inr (JObj [(''error'', JStr ''Product not found'')])
           | None \<Rightarrow> Inr (JObj [(''error'', JStr ''Product not found'')])))"

definition get_discount :: "json \<Rightarrow> py_error + json" where
  "get_discount product_id =
     (case dict_get MOCK_DISCOUNTS product_id of
        Inl e \<Rightarrow> Inl e
      | Inr discount \<Rightarrow>
          (case discount of
             Some d \<Rightarrow> Inr (JObj [(''discount_percentage'', d)])
           | None \<Rightarrow> Inr (JObj [(''discount_percentage'', JInt 0)])))"

section \<open>Conversation state\<close>

datatype role = System | User | Assistant | Tool

text \<open>
  One requested call: \<^verbatim>\<open>tool_call.id\<close>, \<^verbatim>\<open>tool_call.type\<close>,
  \<^verbatim>\<open>tool_call.function.name\<close> and \<^verbatim>\<open>tool_call.function.arguments\<close> (JSON text).
  The entries of the \<^verbatim>\<open>"tool_calls"\<close> list the loop writes have the same four fields.
\<close>

record tool_call =
  call_id :: string
  call_type :: string
  fn_name :: string
  fn_arguments :: string

text \<open>
  A message: the dicts of the \<^verbatim>\<open>messages\<close> list and the message object of an engine
  response. A key the dict does not have (an attribute that is \<^verbatim>\<open>None\<close>) is \<open>None\<close>.
\<close>

record message =
  role :: role
  content :: "string option"
  tool_calls :: "tool_call list option"
  tool_call_id :: "string option"
  name :: "string option"

section \<open>The collaborators outside the repository\<close>

text \<open>
  \<^verbatim>\<open>json.loads\<close> and \<^verbatim>\<open>json.dumps\<close> are parameters of the model: \<open>loads\<close> gives
  \<open>None\<close> where \<^verbatim>\<open>json.loads\<close> raises. The chat client is the sequence of its
  replies: \<open>engine k\<close> is what the \<open>k\<close>-th call of
  \<^verbatim>\<open>client.chat.completions.create\<close> (counted from 0) leads to, either
  \<^verbatim>\<open>response.choices[0].message\<close> or an exception. What each call is sent is
  recorded in the result of the loop.
\<close>

type_synonym json_loads = "string \<Rightarrow> json option"
type_synonym json_dumps = "json \<Rightarrow> string"

datatype engine_reply = Reply message | Raises

type_synonym engine = "nat \<Rightarrow> engine_reply"

section \<open>The tool registry and the loop\<close>

definition available_functions :: "(string \<times> (json \<Rightarrow> py_error + json)) list" where
  "available_functions =
     [(''get_product_info'', get_product_info), (''get_discount'', get_discount)]"

text \<open>
  \<^verbatim>\<open>function_to_call(**function_args)\<close>: both tools have the single parameter
  \<^verbatim>\<open>product_id\<close>, so the call goes through exactly when the arguments are a dict whose
  only key is \<^verbatim>\<open>product_id\<close>; anything else is a \<^verbatim>\<open>TypeError\<close>.
\<close>

fun call_with_kwargs :: "(json \<Rightarrow> py_error + json) \<Rightarrow> json \<Rightarrow> py_error + json" where
  "call_with_kwargs f (JObj [(k, v)]) = (if k = ''product_id'' then f v else Inl TypeError)"
| "call_with_kwargs f args = Inl TypeError"

text \<open>The two dicts the loop appends for one call.\<close>

definition assistant_entry :: "string \<Rightarrow> string \<Rightarrow> string \<Rightarrow> message" where
  "assistant_entry tool_id function_name arguments =
     \<lparr>role = Assistant, content = None,
      tool_calls = Some [\<lparr>call_id = tool_id, call_type = ''function'',
                          fn_name = function_name, fn_arguments = arguments\<rparr>],
      tool_call_id = None, name = None\<rparr>"

definition tool_entry :: "string \<Rightarrow> string \<Rightarrow> string \<Rightarrow> message" where
  "tool_entry tool_id function_name result =
     \<lparr>role = Tool, content = Some result, tool_calls = None,
      tool_call_id = Some tool_id, name = Some function_name\<rparr>"

text \<open>
  The body of the inner \<^verbatim>\<open>for tool_call in msg.tool_calls\<close>, lines 91 to 121: parse
  the arguments, look the function up, call it, and only then append the two messages.
\<close>

definition handle_tool_call ::
  "json_loads \<Rightarrow> json_dumps \<Rightarrow> tool_call \<Rightarrow> message list \<Rightarrow> py_error + message list" where
  "handle_tool_call loads dumps tc messages =
     (case loads (fn_arguments tc) of
        None \<Rightarrow> Inl JSONDecodeError
      | Some function_args \<Rightarrow>
          (case map_of available_functions (fn_name tc) of
             None \<Rightarrow> Inl (KeyError (fn_name tc))
           | Some function_to_call \<Rightarrow>
               (case call_with_kwargs function_to_call function_args of
                  Inl e \<Rightarrow> Inl e
                | Inr function_result \<Rightarrow>
                    Inr (messages @
                         [assistant_entry (call_id tc) (fn_name tc) (dumps function_args),
                          tool_entry (call_id tc) (fn_name tc) (dumps function_result)]))))"

text \<open>
  The inner loop: the calls in their order; an exception stops it and leaves the list as
  the calls before it made it.
\<close>

fun run_tool_calls ::
  "json_loads \<Rightarrow> json_dumps \<Rightarrow> tool_call list \<Rightarrow> message list \<Rightarrow> py_error option \<times> message list" where
  "run_tool_calls loads dumps [] messages = (None, messages)"
| "run_tool_calls loads dumps (tc # tcs) messages =
     (case handle_tool_call loads dumps tc messages of
        Inl e \<Rightarrow> (Some e, messages)
      | Inr messages' \<Rightarrow> run_tool_calls loads dumps tcs messages')"

text \<open>
  What a run of \<^verbatim>\<open>get_completion_loop\<close> leaves behind: the message it returns or the
  exception it raises, the caller's \<^verbatim>\<open>messages\<close> list as the run leaves it (the list is
  mutated in place, so the caller sees it after an exception too), and the list as it was
  at each call of the engine, in call order.
\<close>

record run =
  outcome :: "py_error + message"
  final_messages :: "message list"
  requests :: "message list list"

text \<open>
  The outer \<^verbatim>\<open>for iteration in range(max_iterations)\<close>: \<open>n\<close> iterations are left,
  \<open>iteration\<close> is the loop variable. \<^verbatim>\<open>not msg.tool_calls\<close> holds for \<^verbatim>\<open>None\<close> and
  for the empty list.
\<close>

fun iterate ::
  "json_loads \<Rightarrow> json_dumps \<Rightarrow> engine \<Rightarrow> nat \<Rightarrow> nat \<Rightarrow> message list \<Rightarrow> message list list \<Rightarrow> run" where
  "iterate loads dumps engine 0 iteration messages sent =
     \<lparr>outcome = Inl (PyException ''Max iterations reached without completion.''),
      final_messages = messages, requests = sent\<rparr>"
| "iterate loads dumps engine (Suc n) iteration messages sent =
     (case engine iteration of
        Raises \<Rightarrow>
          \<lparr>outcome = Inl EngineError, final_messages = messages,
           requests = sent @ [messages]\<rparr>
      | Reply msg \<Rightarrow>
          (case tool_calls msg of
             None \<Rightarrow>
               \<lparr>outcome = Inr msg, final_messages = messages, requests = sent @ [messages]\<rparr>
           | Some [] \<Rightarrow>
               \<lparr>outcome = Inr msg, final_messages = messages, requests = sent @ [messages]\<rparr>
           | Some (tc # tcs) \<Rightarrow>
               (case run_tool_calls loads dumps (tc # tcs) messages of
                  (Some e, messages') \<Rightarrow>
                    \<lparr>outcome = Inl e, final_messages = messages',
                     requests = sent @ [messages]\<rparr>
                | (None, messages') \<Rightarrow>
                    iterate loads dumps engine n (Suc iteration) messages'
                      (sent @ [messages]))))"

text \<open>
  The loop itself. Its parameter \<^verbatim>\<open>model\<close> only goes to the client and has no part
  here; \<^verbatim>\<open>range(max_iterations)\<close> is empty for a \<^verbatim>\<open>max_iterations\<close> of zero or less.
\<close>

definition get_completion_loop ::
  "json_loads \<Rightarrow> json_dumps \<Rightarrow> engine \<Rightarrow> message list \<Rightarrow> int \<Rightarrow> run" where
  "get_completion_loop loads dumps engine messages max_iterations =
     iterate loads dumps engine (nat max_iterations) 0 messages []"

section \<open>The readability tool\<close>

text \<open>
  \<^verbatim>\<open>analyze_readability\<close> of \<^verbatim>\<open>HW3/mcp-server.py\<close>. A character stands for a code
  point below 256; \<open>is_space\<close> holds for those of them that \<^verbatim>\<open>str.split()\<close> splits at.
\<close>

definition is_space :: "char \<Rightarrow> bool" where
  "is_space c = (of_char c \<in> {9::nat, 10, 11, 12, 13, 28, 29, 30, 31, 32, 133, 160})"

text \<open>
  \<^verbatim>\<open>content.split()\<close>: the maximal runs of characters that are not whitespace, in
  order; \<open>word\<close> is the run being read.
\<close>

fun split_from :: "string \<Rightarrow> string \<Rightarrow> string list" where
  "split_from word [] = (if word = [] then [] else [word])"
| "split_from word (c # cs) =
     (if is_space c
      then (if word = [] then split_from [] cs else word # split_from [] cs)
      else split_from (word @ [c]) cs)"

definition str_split :: "string \<Rightarrow> string list" where
  "str_split content_str = split_from [] content_str"

text \<open>
  Python's \<^verbatim>\<open>/\<close> on two integers. The quotient is kept exact; the float that Python
  computes is below 6 exactly when the quotient is, for any text of fewer than \<open>2^51\<close>
  words.
\<close>

definition truediv :: "int \<Rightarrow> int \<Rightarrow> py_error + rat" where
  "truediv a b = (if b = 0 then Inl ZeroDivisionError else Inr (of_int a / of_int b))"

text \<open>The decimal digits of a natural number, as an f-string writes a count.\<close>

fun str_nat :: "nat \<Rightarrow> string" where
  "str_nat n =
     (if n < 10 then [''0123456789'' ! n]
      else str_nat (n div 10) @ [''0123456789'' ! (n mod 10)])"

definition analyze_readability :: "string \<Rightarrow> py_error + string" where
  "analyze_readability content_str =
     (let word_count = length (str_split content_str) in
      case truediv (int (sum_list (map length (str_split content_str))))
             (max (int word_count) 1) of
        Inl e \<Rightarrow> Inl e
      | Inr avg_word_length \<Rightarrow>
          (let level = (if avg_word_length < 6 then ''8th grade'' else ''College'');
               clarity = (if avg_word_length < 6 then ''Good'' else ''Could be simpler'')
           in Inr (''\<newline>Word Count: '' @ str_nat word_count @
                   ''\<newline>Reading Level: '' @ level @
                   ''\<newline>Clarity: '' @ clarity @ ''\<newline>'')))"

section \<open>Notions the properties are stated with\<close>

text \<open>A reply that carries at least one requested call.\<close>

fun requests_tools :: "engine_reply \<Rightarrow> bool" where
  "requests_tools (Reply msg) =
     (case tool_calls msg of Some (tc # tcs) \<Rightarrow> True | _ \<Rightarrow> False)"
| "requests_tools Raises = False"

text \<open>A reply that ends the loop with an answer: a message without requested calls.\<close>

fun answers :: "engine_reply \<Rightarrow> bool" where
  "answers (Reply msg) = (case tool_calls msg of Some (tc # tcs) \<Rightarrow> False | _ \<Rightarrow> True)"
| "answers Raises = False"

text \<open>The requested calls of a message (none when the field is absent).\<close>

definition calls_of :: "message \<Rightarrow> tool_call list" where
  "calls_of msg = (case tool_calls msg of None \<Rightarrow> [] | Some tcs \<Rightarrow> tcs)"

fun reply_calls :: "engine_reply \<Rightarrow> tool_call list" where
  "reply_calls (Reply msg) = calls_of msg"
| "reply_calls Raises = []"

text \<open>
  A call the loop body gets through without an exception: its arguments parse, its name
  is in \<open>available_functions\<close>, and the function accepts the arguments.
\<close>

definition dispatches :: "json_loads \<Rightarrow> json_dumps \<Rightarrow> tool_call \<Rightarrow> bool" where
  "dispatches loads dumps tc =
     (case handle_tool_call loads dumps tc [] of Inl e \<Rightarrow> False | Inr ms \<Rightarrow> True)"

text \<open>The messages the loop body appends for a call (none when it raises).\<close>

definition exchange :: "json_loads \<Rightarrow> json_dumps \<Rightarrow> tool_call \<Rightarrow> message list" where
  "exchange loads dumps tc =
     (case handle_tool_call loads dumps tc [] of Inl e \<Rightarrow> [] | Inr ms \<Rightarrow> ms)"

text \<open>A reply with requested calls all of which go through.\<close>

definition clean_turn :: "json_loads \<Rightarrow> json_dumps \<Rightarrow> engine_reply \<Rightarrow> bool" where
  "clean_turn loads dumps r =
     (requests_tools r \<and> list_all (dispatches loads dumps) (reply_calls r))"

text \<open>
  A stretch of messages made of pairs: an assistant message that holds exactly one
  requested call, then a tool message whose \<open>tool_call_id\<close> is the id of that call.
\<close>

fun paired :: "message list \<Rightarrow> bool" where
  "paired [] = True"
| "paired [m] = False"
| "paired (a # t # ms) =
     (role a = Assistant \<and> role t = Tool \<and>
      (case calls_of a of [tc] \<Rightarrow> tool_call_id t = Some (call_id tc) | _ \<Rightarrow> False) \<and>
      paired ms)"



text \<open>The tool messages of a list, in order.\<close>

definition tool_messages :: "message list \<Rightarrow> message list" where
  "tool_messages ms = filter (\<lambda>m. role m = Tool) ms"

section \<open>The trace of a run\<close>

text \<open>
  The conversation as it stands at the \<open>k\<close>-th call of the engine when every turn
  before it went through: the caller's list, followed turn by turn by the messages of the
  calls of that turn's reply.
\<close>

fun grown :: "json_loads \<Rightarrow> json_dumps \<Rightarrow> engine \<Rightarrow> nat \<Rightarrow> message list \<Rightarrow> message list" where
  "grown loads dumps engine 0 messages = messages"
| "grown loads dumps engine (Suc k) messages =
     grown loads dumps engine k messages @
     concat (map (exchange loads dumps) (reply_calls (engine k)))"

text \<open>
  A list \<open>qs\<close> of successive states of the conversation that starts at \<open>ms\<close>, grows from
  one state to the next by pairs only, and ends in \<open>fin\<close>.
\<close>

fun chain :: "message list \<Rightarrow> message list list \<Rightarrow> message list \<Rightarrow> bool" where
  "chain ms [] fin = (fin = ms)"
| "chain ms (q # qs) fin = (q = ms \<and> (\<exists>new. paired new \<and> chain (ms @ new) qs fin))"

section \<open>Sample inputs\<close>

text \<open>
  The caller's list of \<^verbatim>\<open>HW1/main.py\<close> (lines 125 to 128), a finite part of
  \<^verbatim>\<open>json.loads\<close> and \<^verbatim>\<open>json.dumps\<close>, three requested calls (the third names a
  function that \<open>available_functions\<close> does not have) and some engines, for concrete runs.
\<close>

definition initial_messages :: "message list" where
  "initial_messages =
     [\<lparr>role = System,
       content = Some ''You are an e-shop marketing copywriter. Write short promotional campaign texts.'',
       tool_calls = None, tool_call_id = None, name = None\<rparr>,
      \<lparr>role = User, content = Some ''Write a campaign text for product 202.'',
       tool_calls = None, tool_call_id = None, name = None\<rparr>]"

definition sample_texts :: "(string \<times> json) list" where
  \<open>sample_texts =
     [(''{"product_id": "202"}'', JObj [(''product_id'', JStr ''202'')]),
      (''{"name": "Noise Cancelling Headphones", "description": "High fidelity wireless ANC headphones", "price": 129.99}'',
       JObj [(''name'', JStr ''Noise Cancelling Headphones''),
             (''description'', JStr ''High fidelity wireless ANC headphones''),
             (''price'', JFloat ''129.99'')]),
      (''{"discount_percentage": 20}'', JObj [(''discount_percentage'', JInt 20)])]\<close>

definition sample_loads :: json_loads where
  "sample_loads s = map_of sample_texts s"

definition sample_dumps :: json_dumps where
  "sample_dumps v = (case find (\<lambda>(s, v'). v' = v) sample_texts of Some (s, v') \<Rightarrow> s | None \<Rightarrow> ''null'')"

definition call_info :: tool_call where
  \<open>call_info = \<lparr>call_id = ''call_1'', call_type = ''function'',
     fn_name = ''get_product_info'', fn_arguments = ''{"product_id": "202"}''\<rparr>\<close>

definition call_discount :: tool_call where
  \<open>call_discount = \<lparr>call_id = ''call_2'', call_type = ''function'',
     fn_name = ''get_discount'', fn_arguments = ''{"product_id": "202"}''\<rparr>\<close>

definition call_stock :: tool_call where
  \<open>call_stock = \<lparr>call_id = ''call_3'', call_type = ''function'',
     fn_name = ''get_stock'', fn_arguments = ''{"product_id": "202"}''\<rparr>\<close>

definition asking :: "tool_call list \<Rightarrow> message" where
  "asking tcs = \<lparr>role = Assistant, content = None, tool_calls = Some tcs,
     tool_call_id = None, name = None\<rparr>"

definition final_answer :: message where
  "final_answer = \<lparr>role = Assistant, content = Some ''Headphones, now 20% off.'',
     tool_calls = None, tool_call_id = None, name = None\<rparr>"

definition sample_engine :: engine where
  "sample_engine k = (if k = 0 then Reply (asking [call_info, call_discount]) else Reply final_answer)"

definition stock_engine :: engine where
  "stock_engine k = (if k = 0 then Reply (asking [call_stock]) else Reply final_answer)"

definition busy_engine :: engine where
  "busy_engine k = Reply (asking [call_info, call_discount])"

definition stuck_engine :: engine where
  "stuck_engine k = Reply (asking [call_stock])"

definition mixed_engine :: engine where
  "mixed_engine k = (if k = 0 then Reply (asking [call_info, call_stock]) else Reply final_answer)"

definition prompt_engine :: engine where
  "prompt_engine k = Reply final_answer"

section \<open>The tools on their own\<close>

text \<open>
  C7. \<^verbatim>\<open>get_product_info\<close> returns the whole record of a product id that is in the
  table (for "101" the Bluetooth Speaker record), and for every string that is not a key
  of the table it returns the payload \<^verbatim>\<open>{"error": "Product not found"}\<close> as an ordinary
  result, raising nothing. The same payload comes back for a number, a boolean or
  \<^verbatim>\<open>None\<close> as id.
\<close>

theorem get_product_info_lookup:
  "get_product_info (JStr ''101'') =
     Inr (JObj [(''name'', JStr ''Bluetooth Speaker''),
                (''description'', JStr ''Portable speaker with deep bass''),
                (''price'', JFloat ''59.99'')])
   \<and> (\<forall>s p. map_of MOCK_DB s = Some p \<longrightarrow> get_product_info (JStr s) = Inr p)
   \<and> (\<forall>s. s \<notin> fst ` set MOCK_DB \<longrightarrow>
          get_product_info (JStr s) = Inr (JObj [(''error'', JStr ''Product not found'')]))
   \<and> (\<forall>i. get_product_info (JInt i) = Inr (JObj [(''error'', JStr ''Product not found'')]))
   \<and> (\<forall>f. get_product_info (JFloat f) = Inr (JObj [(''error'', JStr ''Product not found'')]))
   \<and> (\<forall>b. get_product_info (JBool b) = Inr (JObj [(''error'', JStr ''Product not found'')]))
   \<and> get_product_info JNull = Inr (JObj [(''error'', JStr ''Product not found'')])"
proof (intro conjI allI impI)
  show "get_product_info (JStr ''101'') =
     Inr (JObj [(''name'', JStr ''Bluetooth Speaker''),
                (''description'', JStr ''Portable speaker with deep bass''),
                (''price'', JFloat ''59.99'')])"
    by (simp add: get_product_info_def MOCK_DB_def)
next
  fix s p
  assume "map_of MOCK_DB s = Some p"
  moreover from this have "truthy p"
    by (auto simp: MOCK_DB_def split: if_splits)
  ultimately show "get_product_info (JStr s) = Inr p"
    by (simp add: get_product_info_def)
next
  fix s
  assume "s \<notin> fst ` set MOCK_DB"
  then have "map_of MOCK_DB s = None"
    by (simp add: map_of_eq_None_iff)
  then show "get_product_info (JStr s) = Inr (JObj [(''error'', JStr ''Product not found'')])"
    by (simp add: get_product_info_def)
qed (simp_all add: get_product_info_def)

theorem get_product_info_lookup_witness:
  "map_of MOCK_DB ''202'' =
     Some (JObj [(''name'', JStr ''Noise Cancelling Headphones''),
                 (''description'', JStr ''High fidelity wireless ANC headphones''),
                 (''price'', JFloat ''129.99'')])
   \<and> get_product_info (JStr ''202'') =
     Inr (JObj [(''name'', JStr ''Noise Cancelling Headphones''),
                (''description'', JStr ''High fidelity wireless ANC headphones''),
                (''price'', JFloat ''129.99'')])
   \<and> ''999'' \<notin> fst ` set MOCK_DB
   \<and> get_product_info (JStr ''999'') = Inr (JObj [(''error'', JStr ''Product not found'')])"
proof -
  have a: "map_of MOCK_DB ''202'' =
     Some (JObj [(''name'', JStr ''Noise Cancelling Headphones''),
                 (''description'', JStr ''High fidelity wireless ANC headphones''),
                 (''price'', JFloat ''129.99'')])"
    by (simp add: MOCK_DB_def)
  have b: "''999'' \<notin> fst ` set MOCK_DB"
    by (simp add: MOCK_DB_def)
  from get_product_info_lookup a b show ?thesis
    by blast
qed

text \<open>
  C8. For every string that is not a key of the discount table, \<^verbatim>\<open>get_discount\<close>
  returns \<^verbatim>\<open>{"discount_percentage": 0}\<close>: a result of the same shape as the one of a
  known product (the payload a product with discount 0 would get), never an error payload.
  The same holds for a number, a boolean or \<^verbatim>\<open>None\<close> as id.
\<close>

theorem get_discount_unknown_is_zero:
  "(\<forall>s. s \<notin> fst ` set MOCK_DISCOUNTS \<longrightarrow>
        get_discount (JStr s) = Inr (JObj [(''discount_percentage'', JInt 0)]))
   \<and> (\<forall>s d. map_of MOCK_DISCOUNTS s = Some d \<longrightarrow>
        get_discount (JStr s) = Inr (JObj [(''discount_percentage'', d)]))
   \<and> (\<forall>i. get_discount (JInt i) = Inr (JObj [(''discount_percentage'', JInt 0)]))
   \<and> (\<forall>f. get_discount (JFloat f) = Inr (JObj [(''discount_percentage'', JInt 0)]))
   \<and> (\<forall>b. get_discount (JBool b) = Inr (JObj [(''discount_percentage'', JInt 0)]))
   \<and> get_discount JNull = Inr (JObj [(''discount_percentage'', JInt 0)])"
proof (intro conjI allI impI)
  fix s
  assume "s \<notin> fst ` set MOCK_DISCOUNTS"
  then have "map_of MOCK_DISCOUNTS s = None"
    by (simp add: map_of_eq_None_iff)
  then show "get_discount (JStr s) = Inr (JObj [(''discount_percentage'', JInt 0)])"
    by (simp add: get_discount_def)
next
  fix s d
  assume "map_of MOCK_DISCOUNTS s = Some d"
  then show "get_discount (JStr s) = Inr (JObj [(''discount_percentage'', d)])"
    by (simp add: get_discount_def)
qed (simp_all add: get_discount_def)

theorem get_discount_unknown_is_zero_witness:
  "''999'' \<notin> fst ` set MOCK_DISCOUNTS
   \<and> get_discount (JStr ''999'') = Inr (JObj [(''discount_percentage'', JInt 0)])
   \<and> map_of MOCK_DISCOUNTS ''202'' = Some (JInt 20)
   \<and> get_discount (JStr ''202'') = Inr (JObj [(''discount_percentage'', JInt 20)])"
proof -
  have a: "''999'' \<notin> fst ` set MOCK_DISCOUNTS"
    by (simp add: MOCK_DISCOUNTS_def)
  have b: "map_of MOCK_DISCOUNTS ''202'' = Some (JInt 20)"
    by (simp add: MOCK_DISCOUNTS_def)
  from get_discount_unknown_is_zero a b show ?thesis
    by blast
qed

section \<open>One requested call, and the calls of one reply\<close>

lemma handle_tool_call_frame:
  "handle_tool_call L D tc ms =
     (case handle_tool_call L D tc [] of Inl e \<Rightarrow> Inl e | Inr new \<Rightarrow> Inr (ms @ new))"
  by (simp add: handle_tool_call_def split: option.splits sum.splits)

lemma handle_tool_call_dispatches:
  "dispatches L D tc \<Longrightarrow> handle_tool_call L D tc ms = Inr (ms @ exchange L D tc)"
  by (subst handle_tool_call_frame) (simp add: dispatches_def exchange_def split: sum.splits)

lemma handle_tool_call_raises:
  "\<not> dispatches L D tc \<Longrightarrow> \<exists>e. handle_tool_call L D tc ms = Inl e"
  by (subst handle_tool_call_frame) (simp add: dispatches_def split: sum.splits)

lemma handle_tool_call_Inr:
  "handle_tool_call L D tc ms = Inr ms' \<Longrightarrow> dispatches L D tc \<and> ms' = ms @ exchange L D tc"
  using handle_tool_call_raises [of L D tc ms] handle_tool_call_dispatches [of L D tc ms]
  by (cases "dispatches L D tc") auto

lemma exchange_shape:
  "exchange L D tc = [] \<or>
   (\<exists>args res. L (fn_arguments tc) = Some args \<and>
      exchange L D tc =
        [assistant_entry (call_id tc) (fn_name tc) (D args),
         tool_entry (call_id tc) (fn_name tc) (D res)])"
  by (auto simp: exchange_def handle_tool_call_def split: option.splits sum.splits)

lemma exchange_dispatches:
  "dispatches L D tc \<Longrightarrow>
   \<exists>args f res. L (fn_arguments tc) = Some args \<and>
      map_of available_functions (fn_name tc) = Some f \<and>
      call_with_kwargs f args = Inr res \<and>
      exchange L D tc =
        [assistant_entry (call_id tc) (fn_name tc) (D args),
         tool_entry (call_id tc) (fn_name tc) (D res)]"
  by (auto simp: dispatches_def exchange_def handle_tool_call_def split: option.splits sum.splits)

lemma unregistered_raises:
  assumes "fn_name tc \<notin> fst ` set available_functions"
  shows "handle_tool_call L D tc ms =
     Inl (if L (fn_arguments tc) = None then JSONDecodeError else KeyError (fn_name tc))"
proof -
  from assms have "map_of available_functions (fn_name tc) = None"
    by (simp add: map_of_eq_None_iff)
  then show ?thesis
    by (simp add: handle_tool_call_def split: option.splits)
qed

lemma paired_exchange: "paired (exchange L D tc)"
  using exchange_shape [of L D tc]
  by (auto simp: assistant_entry_def tool_entry_def calls_of_def)

lemma paired_append: "paired xs \<Longrightarrow> paired ys \<Longrightarrow> paired (xs @ ys)"
  by (induction xs rule: paired.induct) auto

lemma paired_turn: "paired (concat (map (exchange L D) tcs))"
  by (induction tcs) (auto intro: paired_append paired_exchange)

lemma run_tool_calls_clean:
  "list_all (dispatches L D) tcs \<Longrightarrow>
   run_tool_calls L D tcs ms = (None, ms @ concat (map (exchange L D) tcs))"
  by (induction tcs arbitrary: ms) (auto simp: handle_tool_call_dispatches)

lemma run_tool_calls_closed:
  "run_tool_calls L D tcs ms =
     (case dropWhile (dispatches L D) tcs of
        [] \<Rightarrow> None
      | tc # rest \<Rightarrow> (case handle_tool_call L D tc [] of Inl e \<Rightarrow> Some e | Inr new \<Rightarrow> None),
      ms @ concat (map (exchange L D) (takeWhile (dispatches L D) tcs)))"
proof (induction tcs arbitrary: ms)
  case Nil
  then show ?case by simp
next
  case (Cons tc tcs)
  show ?case
  proof (cases "dispatches L D tc")
    case True
    then show ?thesis
      by (simp add: handle_tool_call_dispatches Cons.IH)
  next
    case False
    then obtain e where e: "handle_tool_call L D tc ms = Inl e"
      using handle_tool_call_raises by blast
    then have "handle_tool_call L D tc [] = Inl e"
      by (subst (asm) handle_tool_call_frame) (simp split: sum.splits)
    with False e show ?thesis by simp
  qed
qed

lemma run_tool_calls_None:
  "run_tool_calls L D tcs ms = (None, ms') \<Longrightarrow> list_all (dispatches L D) tcs"
proof (induction tcs arbitrary: ms)
  case Nil
  then show ?case by simp
next
  case (Cons tc tcs)
  then show ?case
    by (auto split: sum.splits dest: handle_tool_call_Inr)
qed

lemma run_tool_calls_grows:
  "run_tool_calls L D tcs ms = (e, ms') \<Longrightarrow> \<exists>new. ms' = ms @ new \<and> paired new"
  by (subst (asm) run_tool_calls_closed) (auto intro: paired_turn)

section \<open>The outer loop\<close>

lemma requests_tools_cases:
  "requests_tools r \<Longrightarrow> \<exists>msg tc tcs. r = Reply msg \<and> tool_calls msg = Some (tc # tcs)"
  by (cases r) (auto split: option.splits list.splits)

lemma answers_cases:
  "answers r \<Longrightarrow> \<exists>msg. r = Reply msg \<and> (tool_calls msg = None \<or> tool_calls msg = Some [])"
  by (cases r) (auto split: option.splits list.splits)

lemma iterate_answer:
  "answers (eng i) \<Longrightarrow> eng i = Reply msg \<Longrightarrow>
   iterate L D eng (Suc n) i ms sent =
     \<lparr>outcome = Inr msg, final_messages = ms, requests = sent @ [ms]\<rparr>"
  by (auto split: option.splits list.splits)

lemma iterate_clean_step:
  assumes "clean_turn L D (eng i)"
  shows "iterate L D eng (Suc n) i ms sent =
         iterate L D eng n (Suc i)
           (ms @ concat (map (exchange L D) (reply_calls (eng i)))) (sent @ [ms])"
proof -
  from assms obtain msg tc tcs where r: "eng i = Reply msg" "tool_calls msg = Some (tc # tcs)"
    unfolding clean_turn_def using requests_tools_cases by blast
  with assms have "list_all (dispatches L D) (tc # tcs)"
    by (simp add: clean_turn_def calls_of_def)
  then have "run_tool_calls L D (tc # tcs) ms =
      (None, ms @ concat (map (exchange L D) (tc # tcs)))"
    by (rule run_tool_calls_clean)
  with r show ?thesis
    by (simp add: calls_of_def)
qed

lemma iterate_clean_turns:
  "(\<forall>j<k. clean_turn L D (eng j)) \<Longrightarrow>
   iterate L D eng (k + r) 0 ms [] =
   iterate L D eng r k (grown L D eng k ms) (map (\<lambda>j. grown L D eng j ms) [0..<k])"
proof (induction k arbitrary: r)
  case 0
  then show ?case by simp
next
  case (Suc k)
  from Suc.prems have "\<forall>j<k. clean_turn L D (eng j)"
    by simp
  from Suc.IH [OF this, of "Suc r"]
  have "iterate L D eng (k + Suc r) 0 ms [] =
      iterate L D eng (Suc r) k (grown L D eng k ms) (map (\<lambda>j. grown L D eng j ms) [0..<k])" .
  moreover have "clean_turn L D (eng k)"
    using Suc.prems by simp
  ultimately show ?case
    by (simp add: iterate_clean_step del: iterate.simps)
qed

lemma iterate_success_only:
  "outcome (iterate L D eng n i ms sent) = Inr m \<Longrightarrow>
   \<exists>k<n. eng (i + k) = Reply m \<and> answers (eng (i + k)) \<and>
          (\<forall>j<k. clean_turn L D (eng (i + j)))"
proof (induction n arbitrary: i ms sent)
  case 0
  then show ?case by simp
next
  case (Suc n)
  show ?case
  proof (cases "eng i")
    case Raises
    with Suc.prems show ?thesis by simp
  next
    case (Reply msg)
    show ?thesis
    proof (cases "answers (eng i)")
      case True
      with Reply Suc.prems have "m = msg"
        by (simp add: iterate_answer del: iterate.simps)
      with True Reply have "eng (i + 0) = Reply m \<and> answers (eng (i + 0)) \<and>
          (\<forall>j<0. clean_turn L D (eng (i + j)))"
        by simp
      then show ?thesis by blast
    next
      case False
      with Reply obtain tc tcs where tcs: "tool_calls msg = Some (tc # tcs)"
        by (auto split: option.splits list.splits)
      obtain e ms' where run: "run_tool_calls L D (tc # tcs) ms = (e, ms')"
        by (cases "run_tool_calls L D (tc # tcs) ms")
      show ?thesis
      proof (cases e)
        case (Some err)
        with Reply tcs run Suc.prems show ?thesis by simp
      next
        case None
        with run have "list_all (dispatches L D) (tc # tcs)"
          using run_tool_calls_None by blast
        with Reply tcs have clean: "clean_turn L D (eng i)"
          by (simp add: clean_turn_def calls_of_def)
        from None Reply tcs run Suc.prems
        have "outcome (iterate L D eng n (Suc i) ms' (sent @ [ms])) = Inr m"
          by simp
        from Suc.IH [OF this] obtain k where k: "k < n" "eng (Suc i + k) = Reply m"
          "answers (eng (Suc i + k))" "\<forall>j<k. clean_turn L D (eng (Suc i + j))"
          by blast
        have "\<forall>j<Suc k. clean_turn L D (eng (i + j))"
        proof (intro allI impI)
          fix j assume "j < Suc k"
          then show "clean_turn L D (eng (i + j))"
            using clean k(4) by (cases j) auto
        qed
        with k show ?thesis
          by (intro exI [of _ "Suc k"]) simp
      qed
    qed
  qed
qed

lemma iterate_chain:
  "\<exists>qs. requests (iterate L D eng n i ms sent) = sent @ qs \<and> length qs \<le> n \<and>
        chain ms qs (final_messages (iterate L D eng n i ms sent))"
proof (induction n arbitrary: i ms sent)
  case 0
  then show ?case by simp
next
  case (Suc n)
  have stop: "\<exists>qs. sent @ [ms] = sent @ qs \<and> length qs \<le> Suc n \<and> chain ms qs (ms @ new)"
    if "paired new" for new
  proof (intro exI [of _ "[ms]"] conjI)
    show "chain ms [ms] (ms @ new)" using that by auto
  qed simp_all
  show ?case
  proof (cases "eng i")
    case Raises
    then show ?thesis using stop [of "[]"] by simp
  next
    case (Reply msg)
    show ?thesis
    proof (cases "tool_calls msg")
      case None
      with Reply show ?thesis using stop [of "[]"] by simp
    next
      case (Some tcs0)
      show ?thesis
      proof (cases tcs0)
        case Nil
        with Reply Some show ?thesis using stop [of "[]"] by simp
      next
        case (Cons tc tcs)
        obtain e ms' where run: "run_tool_calls L D (tc # tcs) ms = (e, ms')"
          by (cases "run_tool_calls L D (tc # tcs) ms")
        then obtain new where new: "ms' = ms @ new" "paired new"
          using run_tool_calls_grows by blast
        show ?thesis
        proof (cases e)
          case (Some err)
          with Reply \<open>tool_calls msg = Some tcs0\<close> Cons run new show ?thesis
            using stop [of new] by simp
        next
          case None
          from Suc.IH [of "Suc i" ms' "sent @ [ms]"] obtain qs where
            qs: "requests (iterate L D eng n (Suc i) ms' (sent @ [ms])) = (sent @ [ms]) @ qs"
              "length qs \<le> n"
              "chain ms' qs (final_messages (iterate L D eng n (Suc i) ms' (sent @ [ms])))"
            by blast
          have it: "iterate L D eng (Suc n) i ms sent = iterate L D eng n (Suc i) ms' (sent @ [ms])"
            using None Reply \<open>tool_calls msg = Some tcs0\<close> Cons run by simp
          show ?thesis
            unfolding it
          proof (intro exI [of _ "ms # qs"] conjI)
            show "chain ms (ms # qs)
                (final_messages (iterate L D eng n (Suc i) ms' (sent @ [ms])))"
              using qs(3) new by auto
          qed (use qs in simp_all)
        qed
      qed
    qed
  qed
qed

lemma iterate_first_request:
  "\<exists>qs. requests (iterate L D eng (Suc n) i ms sent) = sent @ ms # qs"
proof (cases "eng i")
  case Raises
  then show ?thesis by simp
next
  case (Reply msg)
  show ?thesis
  proof (cases "answers (eng i)")
    case True
    with Reply show ?thesis by (simp add: iterate_answer del: iterate.simps)
  next
    case False
    with Reply obtain tc tcs where tcs: "tool_calls msg = Some (tc # tcs)"
      by (auto split: option.splits list.splits)
    obtain e ms' where run: "run_tool_calls L D (tc # tcs) ms = (e, ms')"
      by (cases "run_tool_calls L D (tc # tcs) ms")
    show ?thesis
    proof (cases e)
      case (Some err)
      with Reply tcs run show ?thesis by simp
    next
      case None
      from iterate_chain [of L D eng n "Suc i" ms' "sent @ [ms]"] obtain qs where
        "requests (iterate L D eng n (Suc i) ms' (sent @ [ms])) = (sent @ [ms]) @ qs"
        by blast
      with None Reply tcs run show ?thesis by simp
    qed
  qed
qed

lemma iterate_success_final:
  "outcome (iterate L D eng n i ms sent) = Inr m \<Longrightarrow>
   \<exists>qs. requests (iterate L D eng n i ms sent) = sent @ qs \<and> qs \<noteq> [] \<and>
        final_messages (iterate L D eng n i ms sent) = last qs"
proof (induction n arbitrary: i ms sent)
  case 0
  then show ?case by simp
next
  case (Suc n)
  show ?case
  proof (cases "eng i")
    case Raises
    with Suc.prems show ?thesis by simp
  next
    case (Reply msg)
    show ?thesis
    proof (cases "answers (eng i)")
      case True
      with Reply show ?thesis by (simp add: iterate_answer del: iterate.simps)
    next
      case False
      with Reply obtain tc tcs where tcs: "tool_calls msg = Some (tc # tcs)"
        by (auto split: option.splits list.splits)
      obtain e ms' where run: "run_tool_calls L D (tc # tcs) ms = (e, ms')"
        by (cases "run_tool_calls L D (tc # tcs) ms")
      show ?thesis
      proof (cases e)
        case (Some err)
        with Reply tcs run Suc.prems show ?thesis by simp
      next
        case None
        with Reply tcs run have it:
          "iterate L D eng (Suc n) i ms sent = iterate L D eng n (Suc i) ms' (sent @ [ms])"
          by simp
        with Suc.prems have "outcome (iterate L D eng n (Suc i) ms' (sent @ [ms])) = Inr m"
          by simp
        from Suc.IH [OF this] obtain qs where
          "requests (iterate L D eng n (Suc i) ms' (sent @ [ms])) = (sent @ [ms]) @ qs"
          "qs \<noteq> []"
          "final_messages (iterate L D eng n (Suc i) ms' (sent @ [ms])) = last qs"
          by blast
        then show ?thesis
          unfolding it by (intro exI [of _ "ms # qs"]) simp
      qed
    qed
  qed
qed

lemma chain_hd: "chain ms qs fin \<Longrightarrow> qs \<noteq> [] \<Longrightarrow> hd qs = ms"
  by (cases qs) auto






lemma loop_after_clean_turns:
  assumes "\<forall>j<k. clean_turn L D (eng j)" and "k \<le> nat n"
  shows "get_completion_loop L D eng ms n =
         iterate L D eng (nat n - k) k (grown L D eng k ms)
           (map (\<lambda>j. grown L D eng j ms) [0..<k])"
proof -
  from assms(2) have "nat n = k + (nat n - k)" by simp
  then have "iterate L D eng (nat n) 0 ms [] = iterate L D eng (k + (nat n - k)) 0 ms []"
    by simp
  also have "\<dots> = iterate L D eng (nat n - k) k (grown L D eng k ms)
           (map (\<lambda>j. grown L D eng j ms) [0..<k])"
    using assms(1) by (rule iterate_clean_turns)
  finally show ?thesis
    by (simp add: get_completion_loop_def)
qed

lemma loop_chain:
  "\<exists>qs. requests (get_completion_loop L D eng ms n) = qs \<and> length qs \<le> nat n \<and>
        chain ms qs (final_messages (get_completion_loop L D eng ms n))"
  using iterate_chain [of L D eng "nat n" 0 ms "[]"]
  by (simp add: get_completion_loop_def)

lemma loop_makes_call:
  assumes "\<forall>j<k. clean_turn L D (eng j)" and "k < nat n"
  shows "k < length (requests (get_completion_loop L D eng ms n))"
proof -
  from assms have r: "get_completion_loop L D eng ms n =
      iterate L D eng (nat n - k) k (grown L D eng k ms) (map (\<lambda>j. grown L D eng j ms) [0..<k])"
    by (intro loop_after_clean_turns) simp_all
  from assms(2) obtain r' where r': "nat n - k = Suc r'"
    by (cases "nat n - k") auto
  from iterate_first_request [of L D eng r' k "grown L D eng k ms"
      "map (\<lambda>j. grown L D eng j ms) [0..<k]"]
  obtain qs where "requests (get_completion_loop L D eng ms n) =
      map (\<lambda>j. grown L D eng j ms) [0..<k] @ grown L D eng k ms # qs"
    unfolding r r' by blast
  then show ?thesis by simp
qed

lemma requests_clean:
  "requests (iterate L D eng n i ms sent) = sent @ qs \<Longrightarrow> Suc j < length qs \<Longrightarrow>
   clean_turn L D (eng (i + j))"
proof (induction n arbitrary: i ms sent qs j)
  case 0
  then show ?case by simp
next
  case (Suc n)
  show ?case
  proof (cases "clean_turn L D (eng i)")
    case True
    let ?ms' = "ms @ concat (map (exchange L D) (reply_calls (eng i)))"
    have it: "iterate L D eng (Suc n) i ms sent = iterate L D eng n (Suc i) ?ms' (sent @ [ms])"
      using True by (rule iterate_clean_step)
    from iterate_chain [of L D eng n "Suc i" ?ms' "sent @ [ms]"] obtain qs' where
      qs': "requests (iterate L D eng n (Suc i) ?ms' (sent @ [ms])) = (sent @ [ms]) @ qs'"
      by blast
    with Suc.prems(1) it have qs: "qs = ms # qs'" by simp
    show ?thesis
    proof (cases j)
      case 0
      with True show ?thesis by simp
    next
      case (Suc j')
      with Suc.prems(2) qs have "Suc j' < length qs'" by simp
      from Suc.IH [OF qs' this] Suc show ?thesis by simp
    qed
  next
    case False
    have "requests (iterate L D eng (Suc n) i ms sent) = sent @ [ms]"
    proof (cases "eng i")
      case Raises
      then show ?thesis by simp
    next
      case (Reply msg)
      show ?thesis
      proof (cases "answers (eng i)")
        case True
        with Reply show ?thesis by (simp add: iterate_answer del: iterate.simps)
      next
        case nt: False
        with Reply obtain tc tcs where tcs: "tool_calls msg = Some (tc # tcs)"
          by (auto split: option.splits list.splits)
        obtain e ms' where run: "run_tool_calls L D (tc # tcs) ms = (e, ms')"
          by (cases "run_tool_calls L D (tc # tcs) ms")
        have "e \<noteq> None"
        proof
          assume "e = None"
          with run have "list_all (dispatches L D) (tc # tcs)"
            using run_tool_calls_None by blast
          with Reply tcs have "clean_turn L D (eng i)"
            by (simp add: clean_turn_def calls_of_def)
          with False show False by simp
        qed
        then obtain err where "e = Some err" by auto
        with Reply tcs run show ?thesis by simp
      qed
    qed
    with Suc.prems show ?thesis by simp
  qed
qed

lemma trace_nth:
  assumes "j < length (requests (get_completion_loop L D eng ms n))"
  shows "requests (get_completion_loop L D eng ms n) ! j = grown L D eng j ms \<and>
         (\<forall>i<j. clean_turn L D (eng i))"
proof -
  let ?r = "get_completion_loop L D eng ms n"
  have clean: "\<forall>i<j. clean_turn L D (eng i)"
  proof (intro allI impI)
    fix i assume "i < j"
    with assms have "Suc i < length (requests ?r)" by simp
    moreover have "requests (iterate L D eng (nat n) 0 ms []) = [] @ requests ?r"
      by (simp add: get_completion_loop_def)
    ultimately have "clean_turn L D (eng (0 + i))"
      by (rule requests_clean [rotated])
    then show "clean_turn L D (eng i)" by simp
  qed
  from loop_chain [of L D eng ms n] have "length (requests ?r) \<le> nat n" by simp
  with assms have "j \<le> nat n" by simp
  with clean have r: "?r = iterate L D eng (nat n - j) j (grown L D eng j ms)
           (map (\<lambda>j. grown L D eng j ms) [0..<j])"
    by (rule loop_after_clean_turns)
  from iterate_chain [of L D eng "nat n - j" j "grown L D eng j ms"
      "map (\<lambda>j. grown L D eng j ms) [0..<j]"] r
  obtain qs where qs: "requests ?r = map (\<lambda>j. grown L D eng j ms) [0..<j] @ qs"
    "chain (grown L D eng j ms) qs (final_messages ?r)"
    by auto
  with assms have "qs \<noteq> []" by auto
  with qs(2) have "hd qs = grown L D eng j ms" by (rule chain_hd)
  with \<open>qs \<noteq> []\<close> have "qs ! 0 = grown L D eng j ms" by (simp add: hd_conv_nth)
  with qs(1) have "requests ?r ! j = grown L D eng j ms"
    by (simp add: nth_append)
  with clean show ?thesis by simp
qed

section \<open>The sample calls and runs\<close>

lemma dispatches_call_info: "dispatches sample_loads sample_dumps call_info"
  by (simp add: dispatches_def handle_tool_call_def sample_loads_def sample_texts_def
      call_info_def available_functions_def get_product_info_def MOCK_DB_def)

lemma exchange_call_info:
  "exchange sample_loads sample_dumps call_info =
     [assistant_entry ''call_1'' ''get_product_info'' (fn_arguments call_info),
      tool_entry ''call_1'' ''get_product_info''
        (fst (sample_texts ! 1))]"
  by (simp add: exchange_def handle_tool_call_def sample_loads_def sample_texts_def
      call_info_def available_functions_def get_product_info_def MOCK_DB_def sample_dumps_def)

lemma dispatches_call_discount: "dispatches sample_loads sample_dumps call_discount"
  by (simp add: dispatches_def handle_tool_call_def sample_loads_def sample_texts_def
      call_discount_def available_functions_def get_discount_def MOCK_DISCOUNTS_def)

lemma exchange_call_discount:
  "exchange sample_loads sample_dumps call_discount =
     [assistant_entry ''call_2'' ''get_discount'' (fn_arguments call_discount),
      tool_entry ''call_2'' ''get_discount'' (fst (sample_texts ! 2))]"
  by (simp add: exchange_def handle_tool_call_def sample_loads_def sample_texts_def
      call_discount_def available_functions_def get_discount_def MOCK_DISCOUNTS_def sample_dumps_def)

lemma handle_call_stock:
  "handle_tool_call sample_loads sample_dumps call_stock ms = Inl (KeyError ''get_stock'')"
  by (simp add: handle_tool_call_def sample_loads_def sample_texts_def
      call_stock_def available_functions_def)

lemma clean_sample_turn:
  "clean_turn sample_loads sample_dumps (Reply (asking [call_info, call_discount]))"
  by (simp add: clean_turn_def asking_def calls_of_def dispatches_call_info
      dispatches_call_discount)

lemma sample_run:
  "get_completion_loop sample_loads sample_dumps sample_engine initial_messages 10 =
   \<lparr>outcome = Inr final_answer,
    final_messages = initial_messages @
       exchange sample_loads sample_dumps call_info @
       exchange sample_loads sample_dumps call_discount,
    requests = [initial_messages,
       initial_messages @ exchange sample_loads sample_dumps call_info @
       exchange sample_loads sample_dumps call_discount]\<rparr>"
  by (simp add: get_completion_loop_def sample_engine_def asking_def final_answer_def
     handle_tool_call_dispatches dispatches_call_info dispatches_call_discount eval_nat_numeral)

section \<open>Convergence\<close>

text \<open>
  C1, as the code has it. When the replies before the \<open>k\<close>-th all request calls that go
  through, and the \<open>k\<close>-th reply (with \<open>k\<close> below \<^verbatim>\<open>max_iterations\<close>) carries no
  requested call, the loop returns exactly that reply's message, after \<open>k + 1\<close> calls of
  the engine. And a message is returned in no other way: whenever the loop returns \<open>m\<close>,
  \<open>m\<close> is the first reply without requested calls, it comes within the budget, and every
  turn before it went through.
\<close>

theorem loop_converges_at_first_answer:
  "(k < nat n \<and> (\<forall>j<k. clean_turn L D (eng j)) \<and> eng k = Reply msg \<and> answers (eng k) \<longrightarrow>
      get_completion_loop L D eng ms n =
        \<lparr>outcome = Inr msg, final_messages = grown L D eng k ms,
         requests = map (\<lambda>j. grown L D eng j ms) [0..<Suc k]\<rparr>)
   \<and> (outcome (get_completion_loop L D eng ms n) = Inr m \<longrightarrow>
        (\<exists>k<nat n. eng k = Reply m \<and> answers (eng k) \<and> (\<forall>j<k. clean_turn L D (eng j))))"
proof (intro conjI impI)
  assume a: "k < nat n \<and> (\<forall>j<k. clean_turn L D (eng j)) \<and> eng k = Reply msg \<and> answers (eng k)"
  then obtain r where r: "nat n - k = Suc r"
    by (cases "nat n - k") auto
  from a have "get_completion_loop L D eng ms n =
      iterate L D eng (nat n - k) k (grown L D eng k ms) (map (\<lambda>j. grown L D eng j ms) [0..<k])"
    by (intro loop_after_clean_turns) simp_all
  also have "\<dots> = \<lparr>outcome = Inr msg, final_messages = grown L D eng k ms,
         requests = map (\<lambda>j. grown L D eng j ms) [0..<k] @ [grown L D eng k ms]\<rparr>"
    unfolding r by (intro iterate_answer) (use a in blast)+
  finally show "get_completion_loop L D eng ms n =
        \<lparr>outcome = Inr msg, final_messages = grown L D eng k ms,
         requests = map (\<lambda>j. grown L D eng j ms) [0..<Suc k]\<rparr>"
    by simp
next
  assume "outcome (get_completion_loop L D eng ms n) = Inr m"
  then have "outcome (iterate L D eng (nat n) 0 ms []) = Inr m"
    by (simp add: get_completion_loop_def)
  from iterate_success_only [OF this]
  show "\<exists>k<nat n. eng k = Reply m \<and> answers (eng k) \<and> (\<forall>j<k. clean_turn L D (eng j))"
    by simp
qed

theorem loop_converges_at_first_answer_witness:
  "(1::nat) < nat 10
   \<and> clean_turn sample_loads sample_dumps (sample_engine 0)
   \<and> sample_engine 1 = Reply final_answer \<and> answers (sample_engine 1)
   \<and> get_completion_loop sample_loads sample_dumps sample_engine initial_messages 10 =
        \<lparr>outcome = Inr final_answer,
         final_messages = grown sample_loads sample_dumps sample_engine 1 initial_messages,
         requests = map (\<lambda>j. grown sample_loads sample_dumps sample_engine j initial_messages)
            [0..<Suc 1]\<rparr>
   \<and> (\<exists>k<nat 10. sample_engine k = Reply final_answer \<and> answers (sample_engine k) \<and>
         (\<forall>j<k. clean_turn sample_loads sample_dumps (sample_engine j)))"
proof -
  have c: "clean_turn sample_loads sample_dumps (sample_engine 0)"
    by (simp add: sample_engine_def clean_sample_turn)
  then have h: "(1::nat) < nat 10 \<and> (\<forall>j<1. clean_turn sample_loads sample_dumps (sample_engine j))
      \<and> sample_engine 1 = Reply final_answer \<and> answers (sample_engine 1)"
    by (simp add: sample_engine_def final_answer_def)
  note T = loop_converges_at_first_answer
    [of 1 10 sample_loads sample_dumps sample_engine final_answer initial_messages final_answer]
  from T h have run:
    "get_completion_loop sample_loads sample_dumps sample_engine initial_messages 10 =
        \<lparr>outcome = Inr final_answer,
         final_messages = grown sample_loads sample_dumps sample_engine 1 initial_messages,
         requests = map (\<lambda>j. grown sample_loads sample_dumps sample_engine j initial_messages)
            [0..<Suc 1]\<rparr>"
    by blast
  then have "outcome (get_completion_loop sample_loads sample_dumps sample_engine
      initial_messages 10) = Inr final_answer"
    by simp
  with T have "\<exists>k<nat 10. sample_engine k = Reply final_answer \<and> answers (sample_engine k) \<and>
         (\<forall>j<k. clean_turn sample_loads sample_dumps (sample_engine j))"
    by blast
  with c h run show ?thesis by blast
qed

text \<open>
  C1 as stated fails: the second reply of \<open>stock_engine\<close> carries no requested call and
  comes within ten turns, but the first one names \<^verbatim>\<open>get_stock\<close>, and the run ends in
  the \<^verbatim>\<open>KeyError\<close> of line 97.
\<close>

theorem loop_converges_counterexample:
  "answers (stock_engine 1)
   \<and> (1::nat) < nat 10
   \<and> outcome (get_completion_loop sample_loads sample_dumps stock_engine initial_messages 10)
       = Inl (KeyError ''get_stock'')"
  by (simp add: get_completion_loop_def stock_engine_def asking_def final_answer_def
      handle_call_stock eval_nat_numeral)

section \<open>Exhaustion\<close>

text \<open>
  C2, as the code has it. When each of the first \<^verbatim>\<open>max_iterations\<close> replies requests
  calls that all go through, the loop calls the engine exactly \<^verbatim>\<open>max_iterations\<close>
  times, however many calls a reply requests, and then raises the bare
  \<^verbatim>\<open>Exception("Max iterations reached without completion.")\<close> of line 123 instead
  of returning a message.
\<close>

theorem loop_exhausts_budget:
  assumes "\<forall>j<nat n. clean_turn L D (eng j)"
  shows "get_completion_loop L D eng ms n =
           \<lparr>outcome = Inl (PyException ''Max iterations reached without completion.''),
            final_messages = grown L D eng (nat n) ms,
            requests = map (\<lambda>j. grown L D eng j ms) [0..<nat n]\<rparr>
         \<and> length (requests (get_completion_loop L D eng ms n)) = nat n"
proof -
  from assms have "get_completion_loop L D eng ms n =
      iterate L D eng (nat n - nat n) (nat n) (grown L D eng (nat n) ms)
        (map (\<lambda>j. grown L D eng j ms) [0..<nat n])"
    by (intro loop_after_clean_turns) simp_all
  then have "get_completion_loop L D eng ms n =
           \<lparr>outcome = Inl (PyException ''Max iterations reached without completion.''),
            final_messages = grown L D eng (nat n) ms,
            requests = map (\<lambda>j. grown L D eng j ms) [0..<nat n]\<rparr>"
    by simp
  then show ?thesis by simp
qed

theorem loop_exhausts_budget_witness:
  "clean_turn sample_loads sample_dumps (busy_engine 0)
   \<and> clean_turn sample_loads sample_dumps (busy_engine 1)
   \<and> get_completion_loop sample_loads sample_dumps busy_engine initial_messages 2 =
        \<lparr>outcome = Inl (PyException ''Max iterations reached without completion.''),
         final_messages = grown sample_loads sample_dumps busy_engine (nat 2) initial_messages,
         requests = map (\<lambda>j. grown sample_loads sample_dumps busy_engine j initial_messages)
            [0..<nat 2]\<rparr>
   \<and> length (requests (get_completion_loop sample_loads sample_dumps busy_engine
        initial_messages 2)) = nat 2
   \<and> length (final_messages (get_completion_loop sample_loads sample_dumps busy_engine
        initial_messages 2)) = 10"
proof -
  have c: "clean_turn sample_loads sample_dumps (busy_engine j)" for j
    by (simp add: busy_engine_def clean_sample_turn)
  then have h: "\<forall>j<nat 2. clean_turn sample_loads sample_dumps (busy_engine j)"
    by simp
  note T = loop_exhausts_budget [OF h, of initial_messages]
  have "length (grown sample_loads sample_dumps busy_engine (nat 2) initial_messages) = 10"
    by (simp add: eval_nat_numeral busy_engine_def asking_def calls_of_def
        exchange_call_info exchange_call_discount initial_messages_def)
  with T c show ?thesis by simp
qed

text \<open>
  C2 as stated fails: every reply of \<open>stuck_engine\<close> requests a call, but of
  \<^verbatim>\<open>get_stock\<close>; with a budget of three the run makes one call of the engine and ends
  in a \<^verbatim>\<open>KeyError\<close>, not in the exception of line 123.
\<close>

theorem loop_exhausts_counterexample:
  "requests_tools (stuck_engine 0) \<and> requests_tools (stuck_engine 1)
   \<and> requests_tools (stuck_engine 2)
   \<and> get_completion_loop sample_loads sample_dumps stuck_engine initial_messages 3 =
        \<lparr>outcome = Inl (KeyError ''get_stock''), final_messages = initial_messages,
         requests = [initial_messages]\<rparr>"
  by (simp add: get_completion_loop_def stuck_engine_def asking_def
      handle_call_stock eval_nat_numeral)

section \<open>A requested call of an unknown function\<close>

text \<open>
  C4, as the code has it. A requested call whose name is not a key of
  \<open>available_functions\<close> appends nothing and raises: \<^verbatim>\<open>KeyError\<close> at line 97, or
  \<^verbatim>\<open>JSONDecodeError\<close> at line 92 when its arguments do not parse. The exception leaves
  the loop: when the run reaches a reply that holds such a call after calls that go
  through, it ends in that exception, with the messages of the calls before it appended
  and no further call of the engine.
\<close>

theorem unknown_tool_raises:
  assumes "fn_name tc \<notin> fst ` set available_functions"
  shows "handle_tool_call L D tc ms' =
           Inl (if L (fn_arguments tc) = None then JSONDecodeError else KeyError (fn_name tc))
         \<and> (k < nat n \<and> (\<forall>j<k. clean_turn L D (eng j)) \<and> eng k = Reply msg \<and>
            tool_calls msg = Some (pre @ tc # post) \<and> list_all (dispatches L D) pre \<longrightarrow>
            get_completion_loop L D eng ms n =
              \<lparr>outcome =
                 Inl (if L (fn_arguments tc) = None then JSONDecodeError
                      else KeyError (fn_name tc)),
               final_messages = grown L D eng k ms @ concat (map (exchange L D) pre),
               requests = map (\<lambda>j. grown L D eng j ms) [0..<Suc k]\<rparr>)"
proof (intro conjI impI)
  let ?e = "if L (fn_arguments tc) = None then JSONDecodeError else KeyError (fn_name tc)"
  show raises: "handle_tool_call L D tc ms' = Inl ?e" for ms'
    using assms by (rule unregistered_raises)
  assume a: "k < nat n \<and> (\<forall>j<k. clean_turn L D (eng j)) \<and> eng k = Reply msg \<and>
            tool_calls msg = Some (pre @ tc # post) \<and> list_all (dispatches L D) pre"
  then obtain r where r: "nat n - k = Suc r"
    by (cases "nat n - k") auto
  from raises [of "[]"] have nd: "\<not> dispatches L D tc"
    by (simp add: dispatches_def)
  from a have pre: "\<forall>x\<in>set pre. dispatches L D x"
    by (simp add: list_all_iff)
  with nd have "dropWhile (dispatches L D) (pre @ tc # post) = tc # post"
    "takeWhile (dispatches L D) (pre @ tc # post) = pre"
    by (simp_all add: dropWhile_append3 takeWhile_append2 takeWhile_tail)
  with raises [of "[]"] have run: "run_tool_calls L D (pre @ tc # post) ms'' =
      (Some ?e, ms'' @ concat (map (exchange L D) pre))" for ms''
    by (subst run_tool_calls_closed) simp
  obtain tc0 tcs0 where cons: "pre @ tc # post = tc0 # tcs0"
    by (cases pre) auto
  have step: "iterate L D eng (Suc r) k ms'' sent =
      \<lparr>outcome = Inl ?e, final_messages = ms'' @ concat (map (exchange L D) pre),
       requests = sent @ [ms'']\<rparr>" for ms'' sent
    using a run [of ms''] cons by simp
  from a have "get_completion_loop L D eng ms n =
      iterate L D eng (nat n - k) k (grown L D eng k ms) (map (\<lambda>j. grown L D eng j ms) [0..<k])"
    by (intro loop_after_clean_turns) simp_all
  then show "get_completion_loop L D eng ms n =
              \<lparr>outcome = Inl ?e,
               final_messages = grown L D eng k ms @ concat (map (exchange L D) pre),
               requests = map (\<lambda>j. grown L D eng j ms) [0..<Suc k]\<rparr>"
    unfolding r step by simp
qed

theorem unknown_tool_raises_witness:
  "fn_name call_stock \<notin> fst ` set available_functions
   \<and> handle_tool_call sample_loads sample_dumps call_stock initial_messages =
       Inl (KeyError ''get_stock'')
   \<and> mixed_engine 0 = Reply (asking [call_info, call_stock])
   \<and> dispatches sample_loads sample_dumps call_info
   \<and> get_completion_loop sample_loads sample_dumps mixed_engine initial_messages 10 =
        \<lparr>outcome = Inl (KeyError ''get_stock''),
         final_messages = initial_messages @ exchange sample_loads sample_dumps call_info,
         requests = [initial_messages]\<rparr>"
proof -
  have h: "fn_name call_stock \<notin> fst ` set available_functions"
    by (simp add: call_stock_def available_functions_def)
  have "sample_loads (fn_arguments call_stock) \<noteq> None"
    by (simp add: sample_loads_def call_stock_def sample_texts_def)
  moreover have "fn_name call_stock = ''get_stock''"
    by (simp add: call_stock_def)
  ultimately have err:
    "(if sample_loads (fn_arguments call_stock) = None then JSONDecodeError
      else KeyError (fn_name call_stock)) = KeyError ''get_stock''"
    by simp
  have e: "mixed_engine 0 = Reply (asking [call_info, call_stock])"
    by (simp add: mixed_engine_def)
  have p: "(0::nat) < nat 10 \<and> (\<forall>j<0. clean_turn sample_loads sample_dumps (mixed_engine j)) \<and>
      mixed_engine 0 = Reply (asking [call_info, call_stock]) \<and>
      tool_calls (asking [call_info, call_stock]) = Some ([call_info] @ call_stock # []) \<and>
      list_all (dispatches sample_loads sample_dumps) [call_info]"
    by (simp add: e asking_def dispatches_call_info)
  note T = unknown_tool_raises [OF h, of sample_loads sample_dumps initial_messages 0 10
      mixed_engine "asking [call_info, call_stock]" "[call_info]" "[]" initial_messages,
      unfolded err]
  from T have "handle_tool_call sample_loads sample_dumps call_stock initial_messages =
       Inl (KeyError ''get_stock'')"
    by blast
  moreover from T p have
    "get_completion_loop sample_loads sample_dumps mixed_engine initial_messages 10 =
        \<lparr>outcome = Inl (KeyError ''get_stock''),
         final_messages = grown sample_loads sample_dumps mixed_engine 0 initial_messages @
           concat (map (exchange sample_loads sample_dumps) [call_info]),
         requests = map (\<lambda>j. grown sample_loads sample_dumps mixed_engine j initial_messages)
           [0..<Suc 0]\<rparr>"
    by blast
  then have
    "get_completion_loop sample_loads sample_dumps mixed_engine initial_messages 10 =
        \<lparr>outcome = Inl (KeyError ''get_stock''),
         final_messages = initial_messages @ exchange sample_loads sample_dumps call_info,
         requests = [initial_messages]\<rparr>"
    by simp
  ultimately show ?thesis
    using h e dispatches_call_info by blast
qed

text \<open>
  C4 as stated fails: the call of \<^verbatim>\<open>get_stock\<close> yields no tool message, and the
  \<^verbatim>\<open>KeyError\<close> is the outcome of the whole run.
\<close>

theorem unknown_tool_counterexample:
  "fn_name call_stock \<notin> fst ` set available_functions
   \<and> run_tool_calls sample_loads sample_dumps [call_stock] initial_messages =
       (Some (KeyError ''get_stock''), initial_messages)
   \<and> get_completion_loop sample_loads sample_dumps stock_engine initial_messages 10 =
        \<lparr>outcome = Inl (KeyError ''get_stock''), final_messages = initial_messages,
         requests = [initial_messages]\<rparr>"
proof -
  have "fn_name call_stock \<notin> fst ` set available_functions"
    by (simp add: call_stock_def available_functions_def)
  moreover have "run_tool_calls sample_loads sample_dumps [call_stock] initial_messages =
       (Some (KeyError ''get_stock''), initial_messages)"
    by (simp add: handle_call_stock)
  moreover have
    "get_completion_loop sample_loads sample_dumps stock_engine initial_messages 10 =
        \<lparr>outcome = Inl (KeyError ''get_stock''), final_messages = initial_messages,
         requests = [initial_messages]\<rparr>"
    by (simp add: get_completion_loop_def stock_engine_def asking_def
        handle_call_stock eval_nat_numeral)
  ultimately show ?thesis by blast
qed

section \<open>The final answer and the caller's list\<close>

text \<open>
  C9. When the loop returns a message, the caller's list is as it was at the last call of
  the engine: the iteration that returns appends nothing, the returned message least of
  all. When the first reply already carries no requested call, the list is exactly as
  passed in.
\<close>

theorem final_answer_not_appended:
  "(outcome (get_completion_loop L D eng ms n) = Inr m \<longrightarrow>
      requests (get_completion_loop L D eng ms n) \<noteq> [] \<and>
      final_messages (get_completion_loop L D eng ms n) =
        last (requests (get_completion_loop L D eng ms n)))
   \<and> (0 < n \<and> eng 0 = Reply m \<and> answers (eng 0) \<longrightarrow>
        get_completion_loop L D eng ms n =
          \<lparr>outcome = Inr m, final_messages = ms, requests = [ms]\<rparr>)"
proof (intro conjI impI)
  assume "outcome (get_completion_loop L D eng ms n) = Inr m"
  then have "outcome (iterate L D eng (nat n) 0 ms []) = Inr m"
    by (simp add: get_completion_loop_def)
  from iterate_success_final [OF this] obtain qs where
    "requests (iterate L D eng (nat n) 0 ms []) = [] @ qs" "qs \<noteq> []"
    "final_messages (iterate L D eng (nat n) 0 ms []) = last qs"
    by blast
  then show "requests (get_completion_loop L D eng ms n) \<noteq> []"
    and "final_messages (get_completion_loop L D eng ms n) =
        last (requests (get_completion_loop L D eng ms n))"
    by (simp_all add: get_completion_loop_def)
next
  assume a: "0 < n \<and> eng 0 = Reply m \<and> answers (eng 0)"
  then obtain r where "nat n = Suc r"
    by (cases "nat n") auto
  moreover have "iterate L D eng (Suc r) 0 ms [] =
      \<lparr>outcome = Inr m, final_messages = ms, requests = [] @ [ms]\<rparr>"
    by (intro iterate_answer) (use a in blast)+
  ultimately show "get_completion_loop L D eng ms n =
          \<lparr>outcome = Inr m, final_messages = ms, requests = [ms]\<rparr>"
    by (simp add: get_completion_loop_def)
qed

theorem final_answer_not_appended_witness:
  "(0::int) < 10 \<and> prompt_engine 0 = Reply final_answer \<and> answers (prompt_engine 0)
   \<and> get_completion_loop sample_loads sample_dumps prompt_engine initial_messages 10 =
        \<lparr>outcome = Inr final_answer, final_messages = initial_messages,
         requests = [initial_messages]\<rparr>
   \<and> outcome (get_completion_loop sample_loads sample_dumps sample_engine initial_messages 10)
        = Inr final_answer
   \<and> length (final_messages
        (get_completion_loop sample_loads sample_dumps sample_engine initial_messages 10)) = 6
   \<and> final_messages
        (get_completion_loop sample_loads sample_dumps sample_engine initial_messages 10) =
      last (requests
        (get_completion_loop sample_loads sample_dumps sample_engine initial_messages 10))"
proof -
  have h: "(0::int) < 10 \<and> prompt_engine 0 = Reply final_answer \<and> answers (prompt_engine 0)"
    by (simp add: prompt_engine_def final_answer_def)
  note T1 = final_answer_not_appended
    [of sample_loads sample_dumps prompt_engine initial_messages 10 final_answer]
  note T2 = final_answer_not_appended
    [of sample_loads sample_dumps sample_engine initial_messages 10 final_answer]
  have o: "outcome (get_completion_loop sample_loads sample_dumps sample_engine
      initial_messages 10) = Inr final_answer"
    by (simp add: sample_run)
  have len: "length (final_messages
        (get_completion_loop sample_loads sample_dumps sample_engine initial_messages 10)) = 6"
    unfolding sample_run
    by (simp add: exchange_call_info exchange_call_discount initial_messages_def)
  from T1 h have "get_completion_loop sample_loads sample_dumps prompt_engine initial_messages 10 =
        \<lparr>outcome = Inr final_answer, final_messages = initial_messages,
         requests = [initial_messages]\<rparr>"
    by blast
  moreover from T2 o have "final_messages
        (get_completion_loop sample_loads sample_dumps sample_engine initial_messages 10) =
      last (requests
        (get_completion_loop sample_loads sample_dumps sample_engine initial_messages 10))"
    by blast
  ultimately show ?thesis using h o len by blast
qed

section \<open>What one turn appends\<close>


lemma loop_next_request:
  assumes "Suc k < length (requests (get_completion_loop L D eng ms n))"
  shows "requests (get_completion_loop L D eng ms n) ! Suc k =
           requests (get_completion_loop L D eng ms n) ! k @
           concat (map (exchange L D) (reply_calls (eng k)))"
    and "clean_turn L D (eng k)"
proof -
  let ?r = "get_completion_loop L D eng ms n"
  from assms have "requests ?r ! Suc k = grown L D eng (Suc k) ms"
    and c: "\<forall>i<Suc k. clean_turn L D (eng i)"
    using trace_nth by blast+
  moreover from assms have "k < length (requests ?r)" by simp
  then have "requests ?r ! k = grown L D eng k ms"
    using trace_nth by blast
  ultimately show "requests ?r ! Suc k =
      requests ?r ! k @ concat (map (exchange L D) (reply_calls (eng k)))"
    by simp
  from c show "clean_turn L D (eng k)" by simp
qed




lemma loop_budget_end:
  assumes "Suc k = nat n" and "\<forall>j\<le>k. clean_turn L D (eng j)"
  shows "get_completion_loop L D eng ms n =
           \<lparr>outcome = Inl (PyException ''Max iterations reached without completion.''),
            final_messages = grown L D eng k ms @
              concat (map (exchange L D) (reply_calls (eng k))),
            requests = map (\<lambda>j. grown L D eng j ms) [0..<Suc k]\<rparr>"
proof -
  from assms have "\<forall>j<nat n. clean_turn L D (eng j)"
    by (auto simp: less_Suc_eq_le [symmetric])
  then have "get_completion_loop L D eng ms n =
      iterate L D eng (nat n - nat n) (nat n) (grown L D eng (nat n) ms)
        (map (\<lambda>j. grown L D eng j ms) [0..<nat n])"
    by (intro loop_after_clean_turns) simp_all
  then show ?thesis
    using assms(1) [symmetric] by simp
qed


lemma tool_messages_pair:
  "tool_messages [assistant_entry i1 n1 a1, tool_entry i1 n1 r1,
                  assistant_entry i2 n2 a2, tool_entry i2 n2 r2] =
     [tool_entry i1 n1 r1, tool_entry i2 n2 r2]"
  by (simp add: tool_messages_def assistant_entry_def tool_entry_def)

lemma sample_reply_calls: "reply_calls (sample_engine 0) = [call_info, call_discount]"
  by (simp add: sample_engine_def asking_def calls_of_def)

lemma clean_sample_engine: "clean_turn sample_loads sample_dumps (sample_engine 0)"
  by (simp add: sample_engine_def clean_sample_turn)


lemma sample_pairs:
  "exchange sample_loads sample_dumps call_info @ exchange sample_loads sample_dumps call_discount =
      [assistant_entry ''call_1'' ''get_product_info'' ''{\"product_id\": \"202\"}'',
       tool_entry ''call_1'' ''get_product_info''
         ''{\"name\": \"Noise Cancelling Headphones\", \"description\": \"High fidelity wireless ANC headphones\", \"price\": 129.99}'',
       assistant_entry ''call_2'' ''get_discount'' ''{\"product_id\": \"202\"}'',
       tool_entry ''call_2'' ''get_discount'' ''{\"discount_percentage\": 20}'']"
  unfolding exchange_call_info exchange_call_discount
  by (simp add: call_info_def call_discount_def sample_texts_def)




section \<open>Two requested calls in one reply\<close>

text \<open>
  C6, as the code has it. For a reply with two requested calls: when both go through (as
  do the turns before), the loop looks both up in \<open>available_functions\<close>, calls them,
  and appends, in the order of the requests, for each the assistant message that holds
  its request and then the tool message with the serialised result of its call, so
  exactly two tool messages; with budget left it then calls the engine again with exactly
  these four messages added, and with no budget left they are the end of the final list.
  And whatever the calls do, a next call of the engine is only ever made after both went
  through and with both pairs appended, so partial progress is never sent.
\<close>

theorem two_calls_two_results:
  assumes "reply_calls (eng k) = [tc1, tc2]"
  shows "(Suc k < nat n \<and> (\<forall>j\<le>k. clean_turn L D (eng j)) \<longrightarrow>
            Suc k < length (requests (get_completion_loop L D eng ms n)))
         \<and> (Suc k < length (requests (get_completion_loop L D eng ms n)) \<longrightarrow>
              requests (get_completion_loop L D eng ms n) ! Suc k =
                requests (get_completion_loop L D eng ms n) ! k @
                exchange L D tc1 @ exchange L D tc2 \<and>
              dispatches L D tc1 \<and> dispatches L D tc2)
         \<and> (Suc k = nat n \<and> (\<forall>j\<le>k. clean_turn L D (eng j)) \<longrightarrow>
              length (requests (get_completion_loop L D eng ms n)) = Suc k \<and>
              final_messages (get_completion_loop L D eng ms n) =
                requests (get_completion_loop L D eng ms n) ! k @
                exchange L D tc1 @ exchange L D tc2)
         \<and> (dispatches L D tc1 \<and> dispatches L D tc2 \<longrightarrow>
              (\<exists>args1 f1 res1 args2 f2 res2.
                 L (fn_arguments tc1) = Some args1 \<and>
                 map_of available_functions (fn_name tc1) = Some f1 \<and>
                 call_with_kwargs f1 args1 = Inr res1 \<and>
                 L (fn_arguments tc2) = Some args2 \<and>
                 map_of available_functions (fn_name tc2) = Some f2 \<and>
                 call_with_kwargs f2 args2 = Inr res2 \<and>
                 exchange L D tc1 @ exchange L D tc2 =
                   [assistant_entry (call_id tc1) (fn_name tc1) (D args1),
                    tool_entry (call_id tc1) (fn_name tc1) (D res1),
                    assistant_entry (call_id tc2) (fn_name tc2) (D args2),
                    tool_entry (call_id tc2) (fn_name tc2) (D res2)] \<and>
                 tool_messages (exchange L D tc1 @ exchange L D tc2) =
                   [tool_entry (call_id tc1) (fn_name tc1) (D res1),
                    tool_entry (call_id tc2) (fn_name tc2) (D res2)]))"
proof (intro conjI impI)
  assume "Suc k < nat n \<and> (\<forall>j\<le>k. clean_turn L D (eng j))"
  then have "Suc k < nat n" "\<forall>j<Suc k. clean_turn L D (eng j)"
    by (simp_all add: less_Suc_eq_le)
  then show "Suc k < length (requests (get_completion_loop L D eng ms n))"
    by (intro loop_makes_call)
next
  assume a: "Suc k < length (requests (get_completion_loop L D eng ms n))"
  from loop_next_request(1) [OF a] assms
  show "requests (get_completion_loop L D eng ms n) ! Suc k =
                requests (get_completion_loop L D eng ms n) ! k @
                exchange L D tc1 @ exchange L D tc2"
    by simp
  from loop_next_request(2) [OF a] assms
  show "dispatches L D tc1" "dispatches L D tc2"
    by (simp_all add: clean_turn_def)
next
  assume a: "Suc k = nat n \<and> (\<forall>j\<le>k. clean_turn L D (eng j))"
  then have "get_completion_loop L D eng ms n =
           \<lparr>outcome = Inl (PyException ''Max iterations reached without completion.''),
            final_messages = grown L D eng k ms @
              concat (map (exchange L D) (reply_calls (eng k))),
            requests = map (\<lambda>j. grown L D eng j ms) [0..<Suc k]\<rparr>"
    by (intro loop_budget_end) blast+
  with assms show "length (requests (get_completion_loop L D eng ms n)) = Suc k"
    and "final_messages (get_completion_loop L D eng ms n) =
                requests (get_completion_loop L D eng ms n) ! k @
                exchange L D tc1 @ exchange L D tc2"
    by (simp_all add: nth_append)
next
  assume "dispatches L D tc1 \<and> dispatches L D tc2"
  then obtain args1 f1 res1 args2 f2 res2 where
    1: "L (fn_arguments tc1) = Some args1" "map_of available_functions (fn_name tc1) = Some f1"
       "call_with_kwargs f1 args1 = Inr res1"
       "exchange L D tc1 = [assistant_entry (call_id tc1) (fn_name tc1) (D args1),
          tool_entry (call_id tc1) (fn_name tc1) (D res1)]"
    and 2: "L (fn_arguments tc2) = Some args2" "map_of available_functions (fn_name tc2) = Some f2"
       "call_with_kwargs f2 args2 = Inr res2"
       "exchange L D tc2 = [assistant_entry (call_id tc2) (fn_name tc2) (D args2),
          tool_entry (call_id tc2) (fn_name tc2) (D res2)]"
    using exchange_dispatches [of L D tc1] exchange_dispatches [of L D tc2] by blast
  have "exchange L D tc1 @ exchange L D tc2 =
                   [assistant_entry (call_id tc1) (fn_name tc1) (D args1),
                    tool_entry (call_id tc1) (fn_name tc1) (D res1),
                    assistant_entry (call_id tc2) (fn_name tc2) (D args2),
                    tool_entry (call_id tc2) (fn_name tc2) (D res2)]"
    using 1(4) 2(4) by simp
  moreover from this have "tool_messages (exchange L D tc1 @ exchange L D tc2) =
                   [tool_entry (call_id tc1) (fn_name tc1) (D res1),
                    tool_entry (call_id tc2) (fn_name tc2) (D res2)]"
    by (simp only: tool_messages_pair)
  ultimately show "\<exists>args1 f1 res1 args2 f2 res2.
                 L (fn_arguments tc1) = Some args1 \<and>
                 map_of available_functions (fn_name tc1) = Some f1 \<and>
                 call_with_kwargs f1 args1 = Inr res1 \<and>
                 L (fn_arguments tc2) = Some args2 \<and>
                 map_of available_functions (fn_name tc2) = Some f2 \<and>
                 call_with_kwargs f2 args2 = Inr res2 \<and>
                 exchange L D tc1 @ exchange L D tc2 =
                   [assistant_entry (call_id tc1) (fn_name tc1) (D args1),
                    tool_entry (call_id tc1) (fn_name tc1) (D res1),
                    assistant_entry (call_id tc2) (fn_name tc2) (D args2),
                    tool_entry (call_id tc2) (fn_name tc2) (D res2)] \<and>
                 tool_messages (exchange L D tc1 @ exchange L D tc2) =
                   [tool_entry (call_id tc1) (fn_name tc1) (D res1),
                    tool_entry (call_id tc2) (fn_name tc2) (D res2)]"
    using 1(1-3) 2(1-3) by blast
qed

theorem two_calls_two_results_witness:
  \<open>reply_calls (sample_engine 0) = [call_info, call_discount]
   \<and> Suc 0 < nat 10
   \<and> clean_turn sample_loads sample_dumps (sample_engine 0)
   \<and> Suc 0 < length (requests
        (get_completion_loop sample_loads sample_dumps sample_engine initial_messages 10))
   \<and> requests
        (get_completion_loop sample_loads sample_dumps sample_engine initial_messages 10) ! Suc 0 =
      requests
        (get_completion_loop sample_loads sample_dumps sample_engine initial_messages 10) ! 0 @
      [assistant_entry ''call_1'' ''get_product_info'' ''{"product_id": "202"}'',
       tool_entry ''call_1'' ''get_product_info''
         ''{"name": "Noise Cancelling Headphones", "description": "High fidelity wireless ANC headphones", "price": 129.99}'',
       assistant_entry ''call_2'' ''get_discount'' ''{"product_id": "202"}'',
       tool_entry ''call_2'' ''get_discount'' ''{"discount_percentage": 20}'']
   \<and> dispatches sample_loads sample_dumps call_info
   \<and> dispatches sample_loads sample_dumps call_discount
   \<and> tool_messages (exchange sample_loads sample_dumps call_info @
          exchange sample_loads sample_dumps call_discount) =
        [tool_entry ''call_1'' ''get_product_info''
           ''{"name": "Noise Cancelling Headphones", "description": "High fidelity wireless ANC headphones", "price": 129.99}'',
         tool_entry ''call_2'' ''get_discount'' ''{"discount_percentage": 20}'']\<close>
proof -
  let ?r = "get_completion_loop sample_loads sample_dumps sample_engine initial_messages 10"
  have h: "Suc 0 < nat 10"
    "\<forall>j\<le>0. clean_turn sample_loads sample_dumps (sample_engine j)"
    by (simp_all add: clean_sample_engine)
  note T = two_calls_two_results [of sample_engine 0 call_info call_discount 10
      sample_loads sample_dumps initial_messages, OF sample_reply_calls]
  from T h have next_call: "Suc 0 < length (requests ?r)"
    by blast
  with T have step: "requests ?r ! Suc 0 = requests ?r ! 0 @
      exchange sample_loads sample_dumps call_info @
      exchange sample_loads sample_dumps call_discount"
    and d: "dispatches sample_loads sample_dumps call_info"
      "dispatches sample_loads sample_dumps call_discount"
    by blast+
  from T d obtain res1 res2 where
    "exchange sample_loads sample_dumps call_info @
       exchange sample_loads sample_dumps call_discount =
     [assistant_entry (call_id call_info) (fn_name call_info)
        (sample_dumps (the (sample_loads (fn_arguments call_info)))),
      tool_entry (call_id call_info) (fn_name call_info) (sample_dumps res1),
      assistant_entry (call_id call_discount) (fn_name call_discount)
        (sample_dumps (the (sample_loads (fn_arguments call_discount)))),
      tool_entry (call_id call_discount) (fn_name call_discount) (sample_dumps res2)]"
    "tool_messages (exchange sample_loads sample_dumps call_info @
       exchange sample_loads sample_dumps call_discount) =
     [tool_entry (call_id call_info) (fn_name call_info) (sample_dumps res1),
      tool_entry (call_id call_discount) (fn_name call_discount) (sample_dumps res2)]"
    by force
  with sample_pairs have tm: "tool_messages (exchange sample_loads sample_dumps call_info @
          exchange sample_loads sample_dumps call_discount) =
        [tool_entry ''call_1'' ''get_product_info''
           ''{\"name\": \"Noise Cancelling Headphones\", \"description\": \"High fidelity wireless ANC headphones\", \"price\": 129.99}'',
         tool_entry ''call_2'' ''get_discount'' ''{\"discount_percentage\": 20}'']"
    by simp
  from step have step': "requests ?r ! Suc 0 = requests ?r ! 0 @
      [assistant_entry ''call_1'' ''get_product_info'' ''{\"product_id\": \"202\"}'',
       tool_entry ''call_1'' ''get_product_info''
         ''{\"name\": \"Noise Cancelling Headphones\", \"description\": \"High fidelity wireless ANC headphones\", \"price\": 129.99}'',
       assistant_entry ''call_2'' ''get_discount'' ''{\"product_id\": \"202\"}'',
       tool_entry ''call_2'' ''get_discount'' ''{\"discount_percentage\": 20}'']"
    by (simp only: sample_pairs)
  from sample_reply_calls h(1) clean_sample_engine next_call step' d tm show ?thesis
    by blast
qed

text \<open>
  C6 as stated fails when one of the two calls raises: here the first goes through and the
  second names \<^verbatim>\<open>get_stock\<close>, so one tool message is appended, not two, and the run
  ends in the \<^verbatim>\<open>KeyError\<close>.
\<close>

theorem two_calls_counterexample:
  \<open>reply_calls (mixed_engine 0) = [call_info, call_stock]
   \<and> get_completion_loop sample_loads sample_dumps mixed_engine initial_messages 10 =
       \<lparr>outcome = Inl (KeyError ''get_stock''),
        final_messages = initial_messages @
          [assistant_entry ''call_1'' ''get_product_info'' ''{"product_id": "202"}'',
           tool_entry ''call_1'' ''get_product_info''
             ''{"name": "Noise Cancelling Headphones", "description": "High fidelity wireless ANC headphones", "price": 129.99}''],
        requests = [initial_messages]\<rparr>\<close>
proof -
  have "reply_calls (mixed_engine 0) = [call_info, call_stock]"
    by (simp add: mixed_engine_def asking_def calls_of_def)
  moreover have
    "get_completion_loop sample_loads sample_dumps mixed_engine initial_messages 10 =
       \<lparr>outcome = Inl (KeyError ''get_stock''),
        final_messages = initial_messages @ exchange sample_loads sample_dumps call_info,
        requests = [initial_messages]\<rparr>"
    by (simp add: get_completion_loop_def mixed_engine_def asking_def eval_nat_numeral
        handle_tool_call_dispatches dispatches_call_info handle_call_stock)
  moreover have "exchange sample_loads sample_dumps call_info =
      [assistant_entry ''call_1'' ''get_product_info'' ''{\"product_id\": \"202\"}'',
       tool_entry ''call_1'' ''get_product_info''
         ''{\"name\": \"Noise Cancelling Headphones\", \"description\": \"High fidelity wireless ANC headphones\", \"price\": 129.99}'']"
    unfolding exchange_call_info
    by (simp add: call_info_def sample_texts_def)
  ultimately show ?thesis by simp
qed

section \<open>The conversation is append-only and stays linked\<close>




section \<open>The readability tool is total\<close>

lemma split_from_spaces: "list_all is_space cs \<Longrightarrow> split_from [] cs = []"
  by (induction cs) auto

lemma truediv_guarded: "\<exists>q. truediv a (max (int n) 1) = Inr q"
  by (simp add: truediv_def)

lemma analyze_readability_long_words: "analyze_readability ''extraordinarily  sophisticated'' =
  Inr ''\<newline>Word Count: 2\<newline>Reading Level: College\<newline>Clarity: Could be simpler\<newline>''"
  by (simp add: analyze_readability_def str_split_def is_space_def truediv_def)

text \<open>
  C10. \<^verbatim>\<open>analyze_readability\<close> returns a report for every text: the divisor
  \<^verbatim>\<open>max(word_count, 1)\<close> is never zero, so the division cannot raise. For the empty
  text and for a text of whitespace only the report is the one of a word count of 0.
\<close>

theorem analyze_readability_total:
  "(\<exists>report. analyze_readability content_str = Inr report)
   \<and> max (int (length (str_split content_str))) 1 \<noteq> 0
   \<and> (list_all is_space content_str \<longrightarrow>
        analyze_readability content_str =
          Inr ''\<newline>Word Count: 0\<newline>Reading Level: 8th grade\<newline>Clarity: Good\<newline>'')"
proof (intro conjI impI)
  obtain q where "truediv (int (sum_list (map length (str_split content_str))))
             (max (int (length (str_split content_str))) 1) = Inr q"
    using truediv_guarded by blast
  then show "\<exists>report. analyze_readability content_str = Inr report"
    by (simp add: analyze_readability_def Let_def)
  show "max (int (length (str_split content_str))) 1 \<noteq> 0"
    by simp
  assume "list_all is_space content_str"
  then have "str_split content_str = []"
    by (simp add: str_split_def split_from_spaces)
  then show "analyze_readability content_str =
          Inr ''\<newline>Word Count: 0\<newline>Reading Level: 8th grade\<newline>Clarity: Good\<newline>''"
    by (simp add: analyze_readability_def truediv_def)
qed

theorem analyze_readability_total_witness:
  "list_all is_space ''''
   \<and> analyze_readability '''' =
       Inr ''\<newline>Word Count: 0\<newline>Reading Level: 8th grade\<newline>Clarity: Good\<newline>''
   \<and> list_all is_space '' \<newline>  ''
   \<and> analyze_readability '' \<newline>  '' =
       Inr ''\<newline>Word Count: 0\<newline>Reading Level: 8th grade\<newline>Clarity: Good\<newline>''"
proof -
  have a: "list_all is_space ''''" by simp
  have b: "list_all is_space '' \<newline>  ''" by (simp add: is_space_def)
  from analyze_readability_total [of "''''"] a
       analyze_readability_total [of "'' \<newline>  ''"] b
  show ?thesis by blast
qed

end
